theory Spec2Isabelle
  imports Main
begin

section \<open>Go values: errors, formatted integers\<close>

text \<open>
  A Go \<open>error\<close> is modelled by its message; the interface value is
  \<open>error option\<close>, with \<open>None\<close> for \<open>nil\<close>.  \<open>fmt.Errorf\<close> with the
  verbs \<open>%d\<close> and \<open>%s\<close> is string concatenation around \<open>itoa\<close>.
\<close>

type_synonym error = string

fun digits :: "nat \<Rightarrow> string" where
  "digits n =
     (if n < 10 then [''0123456789'' ! n]
      else digits (n div 10) @ [''0123456789'' ! (n mod 10)])"

declare digits.simps [simp del]

definition itoa :: "int \<Rightarrow> string" where
  "itoa i = (if i < 0 then CHR ''-'' # digits (nat (- i)) else digits (nat i))"

section \<open>The database handle\<close>

text \<open>
  The type \<open>'w\<close> is everything a call can read or change: the contents of the
  database behind \<open>*sql.DB\<close>, the context, and whatever the closures capture.
  Every operation takes it and returns its result together with the world it
  leaves, also when it fails.

  The handle itself is the pair of operations the package calls on it.
  \<open>ExecContext\<close> takes the statement and its bind values.  \<open>QueryRowContext\<close>
  stands for \<open>db.QueryRowContext(ctx, query).Scan(&n)\<close> with \<open>n\<close> an
  \<open>int\<close>: the scan finds no row (\<open>sql.ErrNoRows\<close>), fails otherwise, or
  stores a number.
\<close>

datatype driver_Value = VInt int | VBool bool | VString string

datatype scan_result = ErrNoRows | ScanErr error | Scanned int

record 'w DB =
  ExecContext :: "string \<Rightarrow> driver_Value list \<Rightarrow> 'w \<Rightarrow> error option \<times> 'w"
  QueryRowContext :: "string \<Rightarrow> 'w \<Rightarrow> scan_result \<times> 'w"

section \<open>The sequencer\<close>

text \<open>
  One run passes the same context and handle to every call, so a
  \<open>MigrationFunc\<close> and the methods of an adapter are functions of the world
  alone; what needs the handle (\<open>ExecQueries\<close>, the table adapter) takes it when
  it is built.
\<close>

type_synonym 'w MigrationFunc = "'w \<Rightarrow> error option \<times> 'w"

record 'w Migration =
  Comment :: string
  Up :: "'w MigrationFunc"
  Down :: "'w MigrationFunc"

text \<open>
  The \<open>Adapter\<close> interface.  \<open>Log\<close> takes the format and its arguments (the
  sequencer only ever passes one integer).
\<close>

record 'w Adapter =
  Log :: "string \<Rightarrow> int list \<Rightarrow> 'w \<Rightarrow> 'w"
  PrepareSchemaVersions :: "'w \<Rightarrow> error option \<times> 'w"
  QuerySchemaVersion :: "'w \<Rightarrow> (int \<times> error option) \<times> 'w"
  InsertSchemaVersion :: "int \<Rightarrow> bool \<Rightarrow> string \<Rightarrow> 'w \<Rightarrow> error option \<times> 'w"

text \<open>
  The body of the \<open>for i, m := range migrations\<close> loop of \<open>UpToVersion\<close>; \<open>i\<close> is
  the index of the head of the list.  \<open>continue\<close> is the recursive call on the
  same world, \<open>break\<close> and \<open>return\<close> end the recursion.
\<close>

fun up_loop ::
  "'w Adapter \<Rightarrow> int \<Rightarrow> int \<Rightarrow> nat \<Rightarrow> 'w Migration list \<Rightarrow> 'w \<Rightarrow> error option \<times> 'w" where
  "up_loop ad currentVersion targetVersion i [] w = (None, w)"
| "up_loop ad currentVersion targetVersion i (m # ms) w =
     (let version = int i + 1 in
      if version \<le> currentVersion then up_loop ad currentVersion targetVersion (Suc i) ms w
      else if version > targetVersion then (None, w)
      else
        (let w1 = Log ad ''Upgrading database to version %d'' [version] w in
         case Up m w1 of
           (Some err, w2) \<Rightarrow>
             (Some (''error upgrading database to version '' @ itoa version @ '': '' @ err), w2)
         | (None, w2) \<Rightarrow>
             (case InsertSchemaVersion ad version True (Comment m) w2 of
                (Some err, w3) \<Rightarrow>
                  (Some (''error inserting schema version for version '' @ itoa version
                         @ '': '' @ err), w3)
              | (None, w3) \<Rightarrow> up_loop ad currentVersion targetVersion (Suc i) ms w3)))"

definition UpToVersion ::
  "'w Adapter \<Rightarrow> int \<Rightarrow> 'w Migration list \<Rightarrow> 'w \<Rightarrow> error option \<times> 'w" where
  "UpToVersion ad targetVersion migrations w =
     (case PrepareSchemaVersions ad w of
        (Some err, w1) \<Rightarrow> (Some (''error preparing schema versions: '' @ err), w1)
      | (None, w1) \<Rightarrow>
          (case QuerySchemaVersion ad w1 of
             ((currentVersion, Some err), w2) \<Rightarrow>
               (Some (''error querying current schema version: '' @ err), w2)
           | ((currentVersion, None), w2) \<Rightarrow>
               up_loop ad currentVersion targetVersion 0 migrations
                 (Log ad ''Current database version is %d'' [currentVersion] w2)))"

text \<open>\<open>Up\<close> of package \<open>migrate\<close> (the record field of the same name is the migration's).\<close>

definition migrate_Up :: "'w Adapter \<Rightarrow> 'w Migration list \<Rightarrow> 'w \<Rightarrow> error option \<times> 'w" where
  "migrate_Up ad migrations w = UpToVersion ad (int (length migrations)) migrations w"

text \<open>
  The loop \<open>for i := len(migrations) - 1; i >= 0; i--\<close> of \<open>DownToVersion\<close>.  The
  counter \<open>n\<close> is \<open>i + 1\<close>, so the loop ends at \<open>n = 0\<close>; it starts at
  \<open>len(migrations)\<close>, which keeps \<open>migrations[i]\<close> in range.
\<close>

fun down_loop ::
  "'w Adapter \<Rightarrow> int \<Rightarrow> int \<Rightarrow> 'w Migration list \<Rightarrow> nat \<Rightarrow> 'w \<Rightarrow> error option \<times> 'w" where
  "down_loop ad currentVersion targetVersion migrations 0 w = (None, w)"
| "down_loop ad currentVersion targetVersion migrations (Suc i) w =
     (let m = migrations ! i; version = int i + 1 in
      if version > currentVersion then down_loop ad currentVersion targetVersion migrations i w
      else if version \<le> targetVersion then (None, w)
      else
        (let w1 = Log ad ''Downgrading database to version %d'' [version] w in
         case Down m w1 of
           (Some err, w2) \<Rightarrow>
             (Some (''error upgrading database to version '' @ itoa version @ '': '' @ err), w2)
         | (None, w2) \<Rightarrow>
             (case InsertSchemaVersion ad version False (Comment m) w2 of
                (Some err, w3) \<Rightarrow>
                  (Some (''error inserting schema_versions row for version '' @ itoa version
                         @ '': '' @ err), w3)
              | (None, w3) \<Rightarrow> down_loop ad currentVersion targetVersion migrations i w3)))"

definition DownToVersion ::
  "'w Adapter \<Rightarrow> int \<Rightarrow> 'w Migration list \<Rightarrow> 'w \<Rightarrow> error option \<times> 'w" where
  "DownToVersion ad targetVersion migrations w =
     (case PrepareSchemaVersions ad w of
        (Some err, w1) \<Rightarrow> (Some (''error preparing schema versions: '' @ err), w1)
      | (None, w1) \<Rightarrow>
          (case QuerySchemaVersion ad w1 of
             ((currentVersion, Some err), w2) \<Rightarrow>
               (Some (''error querying current schema version: '' @ err), w2)
           | ((currentVersion, None), w2) \<Rightarrow>
               down_loop ad currentVersion targetVersion migrations (length migrations)
                 (Log ad ''Current database version is %d'' [currentVersion] w2)))"

section \<open>The batch-statement helper\<close>

text \<open>
  \<open>ExecQueries\<close>: the loop \<open>for i, q := range queries\<close> runs each statement
  with no bind values and returns at the first error.
\<close>

fun exec_loop :: "'w DB \<Rightarrow> nat \<Rightarrow> string list \<Rightarrow> 'w \<Rightarrow> error option \<times> 'w" where
  "exec_loop db i [] w = (None, w)"
| "exec_loop db i (q # qs) w =
     (case ExecContext db q [] w of
        (Some err, w') \<Rightarrow> (Some (''error with query '' @ itoa (int i) @ '': '' @ err), w')
      | (None, w') \<Rightarrow> exec_loop db (Suc i) qs w')"

definition ExecQueries :: "'w DB \<Rightarrow> string list \<Rightarrow> 'w MigrationFunc" where
  "ExecQueries db queries = exec_loop db 0 queries"

section \<open>The table adapter\<close>

record 'w TableAdapter =
  LogFunc :: "(string \<Rightarrow> int list \<Rightarrow> 'w \<Rightarrow> 'w) option"
  CreateTableOptions :: string
  PlaceholderVersion :: string
  PlaceholderUpgrade :: string
  PlaceholderComment :: string

definition NewMySQLAdapter :: "(string \<Rightarrow> int list \<Rightarrow> 'w \<Rightarrow> 'w) option \<Rightarrow> 'w TableAdapter" where
  "NewMySQLAdapter log =
     \<lparr>LogFunc = log, CreateTableOptions = '' ENGINE=InnoDB DEFAULT CHARSET=utf8mb4'',
      PlaceholderVersion = ''?'', PlaceholderUpgrade = ''?'', PlaceholderComment = ''?''\<rparr>"

definition NewPostgreSQLAdapter :: "(string \<Rightarrow> int list \<Rightarrow> 'w \<Rightarrow> 'w) option \<Rightarrow> 'w TableAdapter" where
  "NewPostgreSQLAdapter log =
     \<lparr>LogFunc = log, CreateTableOptions = [],
      PlaceholderVersion = ''$1'', PlaceholderUpgrade = ''$2'', PlaceholderComment = ''$3''\<rparr>"

definition NewSQLiteAdapter :: "(string \<Rightarrow> int list \<Rightarrow> 'w \<Rightarrow> 'w) option \<Rightarrow> 'w TableAdapter" where
  "NewSQLiteAdapter log =
     \<lparr>LogFunc = log, CreateTableOptions = [],
      PlaceholderVersion = ''?'', PlaceholderUpgrade = ''?'', PlaceholderComment = ''?''\<rparr>"

text \<open>The three statements, with the line breaks and tabs of the raw string literals.\<close>

definition nl :: string where
  "nl = [CHR 0x0A]"

definition tab :: string where
  "tab = [CHR 0x09]"

definition create_table_sql :: "'w TableAdapter \<Rightarrow> string" where
  "create_table_sql t =
     nl @ tab @ tab @ ''CREATE TABLE IF NOT EXISTS schema_versions ('' @
     nl @ tab @ tab @ tab @ ''version INT NOT NULL PRIMARY KEY,'' @
     nl @ tab @ tab @ tab @ ''created_at TIMESTAMP NOT NULL DEFAULT CURRENT_TIMESTAMP,'' @
     nl @ tab @ tab @ tab @ ''upgrade TINYINT NOT NULL,'' @
     nl @ tab @ tab @ tab @ ''comment TEXT NOT NULL'' @
     nl @ tab @ tab @ '')'' @ CreateTableOptions t @
     nl @ tab"

definition select_version_sql :: string where
  "select_version_sql =
     ''SELECT version FROM schema_versions ORDER BY created_at DESC LIMIT 1''"

definition insert_version_sql :: "'w TableAdapter \<Rightarrow> string" where
  "insert_version_sql t =
     nl @ tab @ tab @ ''INSERT INTO schema_versions (version, upgrade, comment) VALUES ('' @
     PlaceholderVersion t @ '', '' @ PlaceholderUpgrade t @ '', '' @ PlaceholderComment t @
     '')'' @ nl @ tab"

definition TableAdapter_Log :: "'w TableAdapter \<Rightarrow> string \<Rightarrow> int list \<Rightarrow> 'w \<Rightarrow> 'w" where
  "TableAdapter_Log t format v w =
     (case LogFunc t of None \<Rightarrow> w | Some f \<Rightarrow> f format v w)"

definition TableAdapter_PrepareSchemaVersions ::
  "'w DB \<Rightarrow> 'w TableAdapter \<Rightarrow> 'w \<Rightarrow> error option \<times> 'w" where
  "TableAdapter_PrepareSchemaVersions db t w = ExecContext db (create_table_sql t) [] w"

definition TableAdapter_QuerySchemaVersion ::
  "'w DB \<Rightarrow> 'w TableAdapter \<Rightarrow> 'w \<Rightarrow> (int \<times> error option) \<times> 'w" where
  "TableAdapter_QuerySchemaVersion db t w =
     (case QueryRowContext db select_version_sql w of
        (ErrNoRows, w') \<Rightarrow> ((0, None), w')
      | (ScanErr err, w') \<Rightarrow> ((0, Some err), w')
      | (Scanned currentVersion, w') \<Rightarrow> ((currentVersion, None), w'))"

definition TableAdapter_InsertSchemaVersion ::
  "'w DB \<Rightarrow> 'w TableAdapter \<Rightarrow> int \<Rightarrow> bool \<Rightarrow> string \<Rightarrow> 'w \<Rightarrow> error option \<times> 'w" where
  "TableAdapter_InsertSchemaVersion db t version upgrade comment w =
     ExecContext db (insert_version_sql t) [VInt version, VBool upgrade, VString comment] w"

text \<open>A \<open>*TableAdapter\<close> used as an \<open>Adapter\<close> on the handle \<open>db\<close>.\<close>

definition table_adapter :: "'w DB \<Rightarrow> 'w TableAdapter \<Rightarrow> 'w Adapter" where
  "table_adapter db t =
     \<lparr>Log = TableAdapter_Log t,
      PrepareSchemaVersions = TableAdapter_PrepareSchemaVersions db t,
      QuerySchemaVersion = TableAdapter_QuerySchemaVersion db t,
      InsertSchemaVersion = TableAdapter_InsertSchemaVersion db t\<rparr>"

section \<open>Statement of the claims: steps, calls, the store contract\<close>

text \<open>
  Nothing below is code of the package; these are the notions the theorems are
  stated with.

  One pass of either loop body that neither continues nor breaks, at index
  \<open>i\<close> (version \<open>i + 1\<close>), and a run of such passes over a list of indices.
  The loops are shown to be such runs over the indices between the current and
  the target version.
\<close>

definition up_step :: "'w Adapter \<Rightarrow> 'w Migration list \<Rightarrow> nat \<Rightarrow> 'w \<Rightarrow> error option \<times> 'w" where
  "up_step ad ms i w =
     (case Up (ms ! i) (Log ad ''Upgrading database to version %d'' [int i + 1] w) of
        (Some err, w2) \<Rightarrow>
          (Some (''error upgrading database to version '' @ itoa (int i + 1) @ '': '' @ err), w2)
      | (None, w2) \<Rightarrow>
          (case InsertSchemaVersion ad (int i + 1) True (Comment (ms ! i)) w2 of
             (Some err, w3) \<Rightarrow>
               (Some (''error inserting schema version for version '' @ itoa (int i + 1)
                      @ '': '' @ err), w3)
           | (None, w3) \<Rightarrow> (None, w3)))"

fun up_run :: "'w Adapter \<Rightarrow> 'w Migration list \<Rightarrow> nat list \<Rightarrow> 'w \<Rightarrow> error option \<times> 'w" where
  "up_run ad ms [] w = (None, w)"
| "up_run ad ms (i # is) w =
     (case up_step ad ms i w of
        (Some err, w') \<Rightarrow> (Some err, w')
      | (None, w') \<Rightarrow> up_run ad ms is w')"

definition down_step :: "'w Adapter \<Rightarrow> 'w Migration list \<Rightarrow> nat \<Rightarrow> 'w \<Rightarrow> error option \<times> 'w" where
  "down_step ad ms i w =
     (case Down (ms ! i) (Log ad ''Downgrading database to version %d'' [int i + 1] w) of
        (Some err, w2) \<Rightarrow>
          (Some (''error upgrading database to version '' @ itoa (int i + 1) @ '': '' @ err), w2)
      | (None, w2) \<Rightarrow>
          (case InsertSchemaVersion ad (int i + 1) False (Comment (ms ! i)) w2 of
             (Some err, w3) \<Rightarrow>
               (Some (''error inserting schema_versions row for version '' @ itoa (int i + 1)
                      @ '': '' @ err), w3)
           | (None, w3) \<Rightarrow> (None, w3)))"

fun down_run :: "'w Adapter \<Rightarrow> 'w Migration list \<Rightarrow> nat list \<Rightarrow> 'w \<Rightarrow> error option \<times> 'w" where
  "down_run ad ms [] w = (None, w)"
| "down_run ad ms (i # is) w =
     (case down_step ad ms i w of
        (Some err, w') \<Rightarrow> (Some err, w')
      | (None, w') \<Rightarrow> down_run ad ms is w')"

text \<open>
  A step succeeds in the world \<open>w\<close> when the body returns no error there and the
  insert returns none in the world the body leaves; \<open>after_up\<close> is the world the
  step leaves.  \<open>ups_succeed\<close> asks it of each step of a run in the world the
  steps before it leave: success is required only where the run gets to.
\<close>

definition up_succeeds :: "'w Adapter \<Rightarrow> 'w Migration list \<Rightarrow> nat \<Rightarrow> 'w \<Rightarrow> bool" where
  "up_succeeds ad ms i w =
     (let w2 = Log ad ''Upgrading database to version %d'' [int i + 1] w in
      fst (Up (ms ! i) w2) = None \<and>
      fst (InsertSchemaVersion ad (int i + 1) True (Comment (ms ! i)) (snd (Up (ms ! i) w2))) = None)"

definition after_up :: "'w Adapter \<Rightarrow> 'w Migration list \<Rightarrow> nat \<Rightarrow> 'w \<Rightarrow> 'w" where
  "after_up ad ms i w =
     snd (InsertSchemaVersion ad (int i + 1) True (Comment (ms ! i))
            (snd (Up (ms ! i) (Log ad ''Upgrading database to version %d'' [int i + 1] w))))"

fun ups_succeed :: "'w Adapter \<Rightarrow> 'w Migration list \<Rightarrow> nat list \<Rightarrow> 'w \<Rightarrow> bool" where
  "ups_succeed ad ms [] w = True"
| "ups_succeed ad ms (i # is) w =
     (up_succeeds ad ms i w \<and> ups_succeed ad ms is (after_up ad ms i w))"

definition down_succeeds :: "'w Adapter \<Rightarrow> 'w Migration list \<Rightarrow> nat \<Rightarrow> 'w \<Rightarrow> bool" where
  "down_succeeds ad ms i w =
     (let w2 = Log ad ''Downgrading database to version %d'' [int i + 1] w in
      fst (Down (ms ! i) w2) = None \<and>
      fst (InsertSchemaVersion ad (int i + 1) False (Comment (ms ! i)) (snd (Down (ms ! i) w2))) = None)"

definition after_down :: "'w Adapter \<Rightarrow> 'w Migration list \<Rightarrow> nat \<Rightarrow> 'w \<Rightarrow> 'w" where
  "after_down ad ms i w =
     snd (InsertSchemaVersion ad (int i + 1) False (Comment (ms ! i))
            (snd (Down (ms ! i) (Log ad ''Downgrading database to version %d'' [int i + 1] w))))"

fun downs_succeed :: "'w Adapter \<Rightarrow> 'w Migration list \<Rightarrow> nat list \<Rightarrow> 'w \<Rightarrow> bool" where
  "downs_succeed ad ms [] w = True"
| "downs_succeed ad ms (i # is) w =
     (down_succeeds ad ms i w \<and> downs_succeed ad ms is (after_down ad ms i w))"

text \<open>
  The calls a run makes.  \<open>traced ad\<close> is the adapter \<open>ad\<close> on a world that
  also carries the list of calls made so far, each method adding its own call
  (whether or not it fails); \<open>traced_migrations\<close> does the same for the bodies
  of a migration list, naming each by its version.  The sequencer run on them
  is the sequencer run on \<open>ad\<close> and the list, observed.
\<close>

datatype event =
  Logged string "int list"
| Prepared
| Queried
| Inserted int bool string
| RanUp nat
| RanDown nat

definition traced :: "'w Adapter \<Rightarrow> ('w \<times> event list) Adapter" where
  "traced ad =
     \<lparr>Log = (\<lambda>format v (w, tr). (Log ad format v w, tr @ [Logged format v])),
      PrepareSchemaVersions =
        (\<lambda>(w, tr). case PrepareSchemaVersions ad w of (e, w') \<Rightarrow> (e, (w', tr @ [Prepared]))),
      QuerySchemaVersion =
        (\<lambda>(w, tr). case QuerySchemaVersion ad w of (r, w') \<Rightarrow> (r, (w', tr @ [Queried]))),
      InsertSchemaVersion =
        (\<lambda>version upgrade comment (w, tr).
           case InsertSchemaVersion ad version upgrade comment w of
             (e, w') \<Rightarrow> (e, (w', tr @ [Inserted version upgrade comment])))\<rparr>"

definition traced_migration :: "nat \<Rightarrow> 'w Migration \<Rightarrow> ('w \<times> event list) Migration" where
  "traced_migration v m =
     \<lparr>Comment = Comment m,
      Up = (\<lambda>(w, tr). case Up m w of (e, w') \<Rightarrow> (e, (w', tr @ [RanUp v]))),
      Down = (\<lambda>(w, tr). case Down m w of (e, w') \<Rightarrow> (e, (w', tr @ [RanDown v])))\<rparr>"

definition traced_migrations :: "'w Migration list \<Rightarrow> ('w \<times> event list) Migration list" where
  "traced_migrations ms = map (\<lambda>i. traced_migration (Suc i) (ms ! i)) [0..<length ms]"

definition up_events :: "'w Migration list \<Rightarrow> nat list \<Rightarrow> event list" where
  "up_events ms is =
     concat (map (\<lambda>i. [Logged ''Upgrading database to version %d'' [int i + 1],
                        RanUp (Suc i),
                        Inserted (int i + 1) True (Comment (ms ! i))]) is)"

definition down_events :: "'w Migration list \<Rightarrow> nat list \<Rightarrow> event list" where
  "down_events ms is =
     concat (map (\<lambda>i. [Logged ''Downgrading database to version %d'' [int i + 1],
                        RanDown (Suc i),
                        Inserted (int i + 1) False (Comment (ms ! i))]) is)"

text \<open>
  What the sequencer needs of an adapter for "the current version" to mean
  anything: the version read after a successful insert is the one inserted, and
  neither reading nor logging changes what is read.
\<close>

definition store_contract :: "'w Adapter \<Rightarrow> bool" where
  "store_contract ad =
     ((\<forall>version upgrade comment w w'.
         InsertSchemaVersion ad version upgrade comment w = (None, w') \<longrightarrow>
         fst (QuerySchemaVersion ad w') = (version, None)) \<and>
      (\<forall>w. fst (QuerySchemaVersion ad (snd (QuerySchemaVersion ad w))) =
            fst (QuerySchemaVersion ad w)) \<and>
      (\<forall>format v w. fst (QuerySchemaVersion ad (Log ad format v w)) =
            fst (QuerySchemaVersion ad w)))"

text \<open>The statements \<open>ExecQueries\<close> passes to a handle, and their success along a run.\<close>

definition exec_traced :: "'w DB \<Rightarrow> ('w \<times> string list) DB" where
  "exec_traced db =
     \<lparr>ExecContext =
        (\<lambda>query args (w, tr).
           case ExecContext db query args w of (e, w') \<Rightarrow> (e, (w', tr @ [query]))),
      QueryRowContext =
        (\<lambda>query (w, tr). case QueryRowContext db query w of (r, w') \<Rightarrow> (r, (w', tr)))\<rparr>"

fun execs_succeed :: "'w DB \<Rightarrow> string list \<Rightarrow> 'w \<Rightarrow> bool" where
  "execs_succeed db [] w = True"
| "execs_succeed db (q # qs) w =
     (fst (ExecContext db q [] w) = None \<and> execs_succeed db qs (snd (ExecContext db q [] w)))"

definition after_execs :: "'w DB \<Rightarrow> string list \<Rightarrow> 'w \<Rightarrow> 'w" where
  "after_execs db qs w = fold (\<lambda>q w. snd (ExecContext db q [] w)) qs w"

section \<open>The schema_versions table\<close>

text \<open>
  The database is not part of the package; what the table adapter asks of it is
  in its three statements.  This is a database that knows exactly those, for
  the adapter \<open>t\<close>:
  \<^item> \<open>CREATE TABLE IF NOT EXISTS\<close> creates the empty table when there is none;
  \<^item> \<open>INSERT\<close> appends a row stamped with the clock, and is refused when a row
    with the same \<open>version\<close> exists, the column being declared
    \<open>PRIMARY KEY\<close>;
  \<^item> \<open>SELECT ... ORDER BY created_at DESC LIMIT 1\<close> returns the version of a
    row whose \<open>created_at\<close> is greatest.  SQL does not say which one when
    several rows share it, so the choice among them is the parameter \<open>pick\<close>.
  The clock advances at every insert, the most favourable case for the query.
\<close>

record row =
  row_version :: int
  row_created_at :: nat
  row_upgrade :: bool
  row_comment :: string

record sqldb =
  schema_versions :: "row list option"
  now :: nat

definition table_exec ::
  "sqldb TableAdapter \<Rightarrow> string \<Rightarrow> driver_Value list \<Rightarrow> sqldb \<Rightarrow> error option \<times> sqldb" where
  "table_exec t query args d =
     (if query = create_table_sql t then
        (case schema_versions d of
           None \<Rightarrow> (None, d\<lparr>schema_versions := Some []\<rparr>)
         | Some rows \<Rightarrow> (None, d))
      else if query = insert_version_sql t then
        (case schema_versions d of
           None \<Rightarrow> (Some ''no such table: schema_versions'', d)
         | Some rows \<Rightarrow>
             (case args of
                [VInt version, VBool upgrade, VString comment] \<Rightarrow>
                  if version \<in> set (map row_version rows)
                  then (Some ''duplicate key in schema_versions.version'', d)
                  else (None, d\<lparr>schema_versions :=
                                   Some (rows @ [\<lparr>row_version = version, row_created_at = now d,
                                                   row_upgrade = upgrade, row_comment = comment\<rparr>]),
                                 now := Suc (now d)\<rparr>)
              | _ \<Rightarrow> (Some ''wrong bind values'', d)))
      else (Some ''unsupported statement'', d))"

definition newest :: "row list \<Rightarrow> row list" where
  "newest rows =
     filter (\<lambda>r. list_all (\<lambda>r'. row_created_at r' \<le> row_created_at r) rows) rows"

definition table_query_row ::
  "(row list \<Rightarrow> row) \<Rightarrow> string \<Rightarrow> sqldb \<Rightarrow> scan_result \<times> sqldb" where
  "table_query_row pick query d =
     (if query = select_version_sql then
        (case schema_versions d of
           None \<Rightarrow> (ScanErr ''no such table: schema_versions'', d)
         | Some rows \<Rightarrow>
             if rows = [] then (ErrNoRows, d)
             else (Scanned (row_version (pick (newest rows))), d))
      else (ScanErr ''unsupported statement'', d))"

definition table_db :: "(row list \<Rightarrow> row) \<Rightarrow> sqldb TableAdapter \<Rightarrow> sqldb DB" where
  "table_db pick t = \<lparr>ExecContext = table_exec t, QueryRowContext = table_query_row pick\<rparr>"

section \<open>Concrete inputs\<close>

text \<open>
  A store that keeps its records in sequence and reads the last one, on a
  database that knows \<open>CREATE TABLE name\<close> and \<open>DROP TABLE name\<close>; migrations
  built with \<open>ExecQueries\<close>, as in the package's example.
\<close>

record mem =
  records :: "(int \<times> bool \<times> string) list"
  tables :: "string list"

definition mem_adapter :: "mem Adapter" where
  "mem_adapter =
     \<lparr>Log = (\<lambda>format v w. w),
      PrepareSchemaVersions = (\<lambda>w. (None, w)),
      QuerySchemaVersion =
        (\<lambda>w. ((if records w = [] then 0 else fst (last (records w)), None), w)),
      InsertSchemaVersion =
        (\<lambda>version upgrade comment w.
           (None, w\<lparr>records := records w @ [(version, upgrade, comment)]\<rparr>))\<rparr>"

definition mem_exec :: "string \<Rightarrow> driver_Value list \<Rightarrow> mem \<Rightarrow> error option \<times> mem" where
  "mem_exec query args w =
     (if take 13 query = ''CREATE TABLE '' then
        (if drop 13 query \<in> set (tables w) then (Some ''table exists'', w)
         else (None, w\<lparr>tables := tables w @ [drop 13 query]\<rparr>))
      else if take 11 query = ''DROP TABLE '' then
        (if drop 11 query \<in> set (tables w)
         then (None, w\<lparr>tables := removeAll (drop 11 query) (tables w)\<rparr>)
         else (Some ''no such table'', w))
      else (Some ''syntax error'', w))"

definition mem_db :: "mem DB" where
  "mem_db = \<lparr>ExecContext = mem_exec, QueryRowContext = (\<lambda>query w. (ScanErr ''no rows'', w))\<rparr>"

definition create_table :: "string \<Rightarrow> mem Migration" where
  "create_table name =
     \<lparr>Comment = ''create '' @ name,
      Up = ExecQueries mem_db [''CREATE TABLE '' @ name],
      Down = ExecQueries mem_db [''DROP TABLE '' @ name]\<rparr>"

definition fresh :: mem where
  "fresh = \<lparr>records = [], tables = []\<rparr>"

definition three :: "mem Migration list" where
  "three = [create_table ''a'', create_table ''b'', create_table ''c'']"

definition clash :: "mem Migration list" where
  "clash = [create_table ''a'', create_table ''a'', create_table ''b'']"

text \<open>The table adapter for PostgreSQL on the table above, and a migration that does nothing.\<close>

definition pg :: "sqldb TableAdapter" where
  "pg = NewPostgreSQLAdapter None"

definition pg_adapter :: "sqldb Adapter" where
  "pg_adapter = table_adapter (table_db hd pg) pg"

definition empty_db :: sqldb where
  "empty_db = \<lparr>schema_versions = None, now = 0\<rparr>"

definition first_migration :: "sqldb Migration" where
  "first_migration = \<lparr>Comment = ''first'', Up = (\<lambda>w. (None, w)), Down = (\<lambda>w. (None, w))\<rparr>"

section \<open>The mock driver of the package's tests\<close>

text \<open>
  \<open>MockConn\<close> records the statements it is given and answers every query with
  the one row \<open>QueryRows.Version\<close>; \<open>ExecErr\<close> and \<open>QueryErr\<close>, when set, make
  every call fail, unrecorded.  \<open>database/sql\<close> hands the driver the bind values
  numbered from 1.  The world of a test is the mock's data and the two arrays
  the migrations of \<open>TestDown\<close> write to; \<open>Reset\<close> is the data after
  \<open>md.Reset()\<close>.
\<close>

record NamedValue =
  Name :: string
  Ordinal :: int
  Value :: driver_Value

record MockQueryLog =
  Query :: string
  Args :: "NamedValue list"

record MockRows =
  Version :: int

record MockData =
  ExecErr :: "error option"
  ExecLogs :: "MockQueryLog list"
  QueryErr :: "error option"
  QueryLogs :: "MockQueryLog list"
  QueryRows :: MockRows

record test_world =
  md :: MockData
  up :: "bool list"
  down :: "bool list"

definition named_values :: "driver_Value list \<Rightarrow> NamedValue list" where
  "named_values args =
     map (\<lambda>(i, v). \<lparr>Name = [], Ordinal = int i + 1, Value = v\<rparr>) (enumerate 0 args)"

definition MockConn_ExecContext ::
  "string \<Rightarrow> driver_Value list \<Rightarrow> test_world \<Rightarrow> error option \<times> test_world" where
  "MockConn_ExecContext query args w =
     (case ExecErr (md w) of
        Some err \<Rightarrow> (Some err, w)
      | None \<Rightarrow>
          (None, w\<lparr>md := (md w)\<lparr>ExecLogs := ExecLogs (md w)
                              @ [\<lparr>Query = query, Args = named_values args\<rparr>]\<rparr>\<rparr>))"

definition MockConn_QueryContext :: "string \<Rightarrow> test_world \<Rightarrow> scan_result \<times> test_world" where
  "MockConn_QueryContext query w =
     (case QueryErr (md w) of
        Some err \<Rightarrow> (ScanErr err, w)
      | None \<Rightarrow>
          (Scanned (Version (QueryRows (md w))),
           w\<lparr>md := (md w)\<lparr>QueryLogs := QueryLogs (md w) @ [\<lparr>Query = query, Args = []\<rparr>]\<rparr>\<rparr>))"

definition mock_db :: "test_world DB" where
  "mock_db = \<lparr>ExecContext = MockConn_ExecContext, QueryRowContext = MockConn_QueryContext\<rparr>"

definition Reset :: "MockData" where
  "Reset = \<lparr>ExecErr = None, ExecLogs = [], QueryErr = None, QueryLogs = [],
            QueryRows = \<lparr>Version = 0\<rparr>\<rparr>"

definition test_adapter :: "test_world Adapter" where
  "test_adapter = table_adapter mock_db (NewPostgreSQLAdapter (Some (\<lambda>format v w. w)))"

definition test_migrations :: "test_world Migration list" where
  "test_migrations =
     [\<lparr>Comment = ''example comment 1'',
       Up = (\<lambda>w. (None, w\<lparr>up := (up w)[0 := True]\<rparr>)),
       Down = (\<lambda>w. (None, w\<lparr>down := (down w)[0 := True]\<rparr>))\<rparr>,
      \<lparr>Comment = ''example comment 2'',
       Up = (\<lambda>w. if \<not> up w ! 1 then (Some ''mock error'', w\<lparr>up := (up w)[1 := True]\<rparr>)
                  else (None, w)),
       Down = (\<lambda>w. (None, w\<lparr>down := (down w)[1 := True]\<rparr>))\<rparr>,
      \<lparr>Comment = ''example comment 3'',
       Up = (\<lambda>w. (None, w\<lparr>up := (up w)[2 := True]\<rparr>)),
       Down = (\<lambda>w. (None, w\<lparr>down := (down w)[2 := True]\<rparr>))\<rparr>]"

definition expectedCreateSQL :: string where
  "expectedCreateSQL = create_table_sql (NewPostgreSQLAdapter None :: test_world TableAdapter)"

definition expectedInsertSQL :: string where
  "expectedInsertSQL = insert_version_sql (NewPostgreSQLAdapter None :: test_world TableAdapter)"

definition insert_log :: "int \<Rightarrow> bool \<Rightarrow> string \<Rightarrow> MockQueryLog" where
  "insert_log version upgrade comment =
     \<lparr>Query = expectedInsertSQL,
      Args = [\<lparr>Name = [], Ordinal = 1, Value = VInt version\<rparr>,
              \<lparr>Name = [], Ordinal = 2, Value = VBool upgrade\<rparr>,
              \<lparr>Name = [], Ordinal = 3, Value = VString comment\<rparr>]\<rparr>"

section \<open>The loops as runs over a range of versions\<close>

text \<open>
  The upgrade loop skips the indices below the current version and stops above
  the target: it runs the steps of the indices from the current version up to
  \<open>min target (len migrations)\<close>.  The downgrade loop runs the same range
  between target and current version, from the top.
\<close>

lemma up_loop_run_gen:
  "length pre = i \<Longrightarrow>
   up_loop ad cur tgt i xs w =
     up_run ad (pre @ xs) [max (nat cur) i ..< nat (min tgt (int (i + length xs)))] w"
proof (induction xs arbitrary: i pre w)
  case Nil
  then show ?case by simp
next
  case (Cons m xs)
  have len: "length (pre @ [m]) = Suc i" using Cons.prems by simp
  note IH = Cons.IH [OF len, simplified]
  consider (skip) "int i + 1 \<le> cur"
    | (stop) "cur < int i + 1" "tgt < int i + 1"
    | (run) "cur < int i + 1" "int i + 1 \<le> tgt"
    by linarith
  then show ?case
  proof cases
    case skip
    then have m: "max (nat cur) i = nat cur" "max (nat cur) (Suc i) = nat cur" by simp_all
    show ?thesis using skip by (simp add: IH m)
  next
    case stop
    then have "nat (min tgt (int (i + length (m # xs)))) \<le> max (nat cur) i" by simp
    then show ?thesis using stop by simp
  next
    case run
    then have m: "max (nat cur) i = i" "max (nat cur) (Suc i) = Suc i" by simp_all
    from run have u: "i < nat (min tgt (1 + (int i + int (length xs))))" by simp
    have nth: "(pre @ m # xs) ! i = m" using Cons.prems nth_append_length [of pre m xs] by simp
    show ?thesis using run u
      by (simp add: IH m upt_conv_Cons up_step_def nth split: prod.splits option.splits)
  qed
qed

lemma up_loop_run:
  "up_loop ad cur tgt 0 ms w = up_run ad ms [nat cur ..< nat (min tgt (int (length ms)))] w"
  using up_loop_run_gen [of "[]" 0 ad cur tgt ms w] by simp

lemma down_loop_run:
  "n \<le> length ms \<Longrightarrow>
   down_loop ad cur tgt ms n w = down_run ad ms (rev [nat tgt ..< nat (min cur (int n))]) w"
proof (induction n arbitrary: w)
  case 0
  then show ?case by simp
next
  case (Suc n)
  then have IH: "\<And>w. down_loop ad cur tgt ms n w =
      down_run ad ms (rev [nat tgt ..< nat (min cur (int n))]) w" by simp
  consider (skip) "cur < int n + 1"
    | (stop) "int n + 1 \<le> cur" "int n + 1 \<le> tgt"
    | (run) "int n + 1 \<le> cur" "tgt < int n + 1"
    by linarith
  then show ?case
  proof cases
    case skip
    then have m: "min cur (int (Suc n)) = cur" "min cur (int n) = cur" by simp_all
    show ?thesis using skip by (simp add: IH m del: of_nat_Suc)
  next
    case stop
    then have "nat (min cur (int (Suc n))) \<le> nat tgt" by simp
    then show ?thesis using stop by simp
  next
    case run
    then have m: "nat (min cur (int (Suc n))) = Suc n" "nat (min cur (int n)) = n" by simp_all
    from run have t: "nat tgt \<le> n" by simp
    show ?thesis using run t
      by (simp add: IH m down_step_def split: prod.splits option.splits del: of_nat_Suc)
  qed
qed

lemma up_run_append:
  "up_run ad ms (xs @ ys) w =
     (case up_run ad ms xs w of
        (Some err, w') \<Rightarrow> (Some err, w')
      | (None, w') \<Rightarrow> up_run ad ms ys w')"
  by (induction xs arbitrary: w) (simp_all split: prod.splits option.splits)

lemma up_step_None:
  "up_step ad ms i w = (None, w') \<Longrightarrow> up_succeeds ad ms i w \<and> w' = after_up ad ms i w"
  by (auto simp: up_step_def up_succeeds_def after_up_def Let_def
      split: prod.splits option.splits)

lemma up_run_None:
  "up_run ad ms is w = (None, w') \<Longrightarrow>
   ups_succeed ad ms is w \<and> w' = fold (after_up ad ms) is w"
proof (induction "is" arbitrary: w)
  case Nil
  then show ?case by simp
next
  case (Cons i "is")
  from Cons.prems obtain w1 where s: "up_step ad ms i w = (None, w1)"
    and r: "up_run ad ms is w1 = (None, w')"
    by (auto split: prod.splits option.splits)
  from up_step_None [OF s] Cons.IH [OF r] show ?case by simp
qed

lemma up_step_succeeds:
  "up_succeeds ad ms i w \<Longrightarrow> up_step ad ms i w = (None, after_up ad ms i w)"
  by (auto simp: up_succeeds_def up_step_def after_up_def Let_def split: prod.splits option.splits)

lemma down_step_succeeds:
  "down_succeeds ad ms i w \<Longrightarrow> down_step ad ms i w = (None, after_down ad ms i w)"
  by (auto simp: down_succeeds_def down_step_def after_down_def Let_def
      split: prod.splits option.splits)

lemma up_run_succeeds:
  "ups_succeed ad ms is w \<Longrightarrow> up_run ad ms is w = (None, fold (after_up ad ms) is w)"
  by (induction "is" arbitrary: w) (simp_all add: up_step_succeeds)

lemma down_run_succeeds:
  "downs_succeed ad ms is w \<Longrightarrow> down_run ad ms is w = (None, fold (after_down ad ms) is w)"
  by (induction "is" arbitrary: w) (simp_all add: down_step_succeeds)

lemma ups_succeed_append:
  "ups_succeed ad ms (xs @ ys) w =
     (ups_succeed ad ms xs w \<and> ups_succeed ad ms ys (fold (after_up ad ms) xs w))"
  by (induction xs arbitrary: w) simp_all

lemma downs_succeed_append:
  "downs_succeed ad ms (xs @ ys) w =
     (downs_succeed ad ms xs w \<and> downs_succeed ad ms ys (fold (after_down ad ms) xs w))"
  by (induction xs arbitrary: w) simp_all

section \<open>The calls of a run\<close>

lemma length_traced_migrations [simp]: "length (traced_migrations ms) = length ms"
  by (simp add: traced_migrations_def)

lemma nth_traced_migrations [simp]:
  "i < length ms \<Longrightarrow> traced_migrations ms ! i = traced_migration (Suc i) (ms ! i)"
  by (simp add: traced_migrations_def)

lemma traced_up_step_succeeds:
  "up_succeeds ad ms i w \<Longrightarrow> i < length ms \<Longrightarrow>
   up_step (traced ad) (traced_migrations ms) i (w, tr) =
     (None, (after_up ad ms i w, tr @ up_events ms [i]))"
  by (auto simp: up_succeeds_def up_step_def after_up_def up_events_def traced_def
      traced_migration_def Let_def split: prod.splits option.splits)

lemma traced_down_step_succeeds:
  "down_succeeds ad ms i w \<Longrightarrow> i < length ms \<Longrightarrow>
   down_step (traced ad) (traced_migrations ms) i (w, tr) =
     (None, (after_down ad ms i w, tr @ down_events ms [i]))"
  by (auto simp: down_succeeds_def down_step_def after_down_def down_events_def traced_def
      traced_migration_def Let_def split: prod.splits option.splits)

lemma traced_up_step_body_fails:
  "Up (ms ! j) (Log ad ''Upgrading database to version %d'' [int j + 1] w) = (Some cause, wF) \<Longrightarrow>
   j < length ms \<Longrightarrow>
   up_step (traced ad) (traced_migrations ms) j (w, tr) =
     (Some (''error upgrading database to version '' @ itoa (int j + 1) @ '': '' @ cause),
      (wF, tr @ [Logged ''Upgrading database to version %d'' [int j + 1], RanUp (Suc j)]))"
  by (simp add: up_step_def traced_def traced_migration_def)

lemma up_events_Cons: "up_events ms (i # is) = up_events ms [i] @ up_events ms is"
  by (simp add: up_events_def)

lemma down_events_Cons: "down_events ms (i # is) = down_events ms [i] @ down_events ms is"
  by (simp add: down_events_def)

lemma traced_up_run_succeeds:
  "ups_succeed ad ms is w \<Longrightarrow> \<forall>i\<in>set is. i < length ms \<Longrightarrow>
   up_run (traced ad) (traced_migrations ms) is (w, tr) =
     (None, (fold (after_up ad ms) is w, tr @ up_events ms is))"
proof (induction "is" arbitrary: w tr)
  case Nil
  then show ?case by (simp add: up_events_def)
next
  case (Cons i "is")
  then show ?case
    by (simp add: traced_up_step_succeeds up_events_Cons [of ms i "is"])
qed

lemma traced_down_run_succeeds:
  "downs_succeed ad ms is w \<Longrightarrow> \<forall>i\<in>set is. i < length ms \<Longrightarrow>
   down_run (traced ad) (traced_migrations ms) is (w, tr) =
     (None, (fold (after_down ad ms) is w, tr @ down_events ms is))"
proof (induction "is" arbitrary: w tr)
  case Nil
  then show ?case by (simp add: down_events_def)
next
  case (Cons i "is")
  then show ?case
    by (simp add: traced_down_step_succeeds down_events_Cons [of ms i "is"])
qed

lemma traced_UpToVersion:
  assumes "PrepareSchemaVersions ad w = (None, w1)"
    and "QuerySchemaVersion ad w1 = ((C, None), w2)"
  shows "UpToVersion (traced ad) T (traced_migrations ms) (w, tr) =
     up_run (traced ad) (traced_migrations ms) [nat C ..< nat (min T (int (length ms)))]
       (Log ad ''Current database version is %d'' [C] w2,
        tr @ [Prepared, Queried, Logged ''Current database version is %d'' [C]])"
  using assms by (simp add: UpToVersion_def traced_def up_loop_run)

lemma traced_DownToVersion:
  assumes "PrepareSchemaVersions ad w = (None, w1)"
    and "QuerySchemaVersion ad w1 = ((C, None), w2)"
  shows "DownToVersion (traced ad) T (traced_migrations ms) (w, tr) =
     down_run (traced ad) (traced_migrations ms)
       (rev [nat T ..< nat (min C (int (length ms)))])
       (Log ad ''Current database version is %d'' [C] w2,
        tr @ [Prepared, Queried, Logged ''Current database version is %d'' [C]])"
  using assms by (simp add: DownToVersion_def traced_def down_loop_run)

text \<open>
  Observing a run does not change it: what the sequencer returns and the world
  it leaves are the same on the traced adapter and migrations as on the plain
  ones.
\<close>

lemma traced_up_step_projects:
  "i < length ms \<Longrightarrow>
   fst (up_step (traced ad) (traced_migrations ms) i (w, tr)) = fst (up_step ad ms i w) \<and>
   fst (snd (up_step (traced ad) (traced_migrations ms) i (w, tr))) = snd (up_step ad ms i w)"
  by (simp add: up_step_def traced_def traced_migration_def split: prod.splits option.splits)

lemma traced_down_step_projects:
  "i < length ms \<Longrightarrow>
   fst (down_step (traced ad) (traced_migrations ms) i (w, tr)) = fst (down_step ad ms i w) \<and>
   fst (snd (down_step (traced ad) (traced_migrations ms) i (w, tr))) = snd (down_step ad ms i w)"
  by (simp add: down_step_def traced_def traced_migration_def split: prod.splits option.splits)

lemma traced_up_run_projects:
  "\<forall>i\<in>set is. i < length ms \<Longrightarrow>
   fst (up_run (traced ad) (traced_migrations ms) is (w, tr)) = fst (up_run ad ms is w) \<and>
   fst (snd (up_run (traced ad) (traced_migrations ms) is (w, tr))) = snd (up_run ad ms is w)"
proof (induction "is" arbitrary: w tr)
  case Nil
  then show ?case by simp
next
  case (Cons i "is")
  then have i: "i < length ms" and rest: "\<forall>i\<in>set is. i < length ms" by simp_all
  obtain e w' tr' where t: "up_step (traced ad) (traced_migrations ms) i (w, tr) = (e, (w', tr'))"
    by (metis prod.collapse)
  with traced_up_step_projects [OF i, of ad w tr] have p: "up_step ad ms i w = (e, w')"
    by (simp add: prod_eq_iff)
  show ?case using t p Cons.IH [OF rest, of w' tr'] by (cases e) simp_all
qed

lemma traced_down_run_projects:
  "\<forall>i\<in>set is. i < length ms \<Longrightarrow>
   fst (down_run (traced ad) (traced_migrations ms) is (w, tr)) = fst (down_run ad ms is w) \<and>
   fst (snd (down_run (traced ad) (traced_migrations ms) is (w, tr))) = snd (down_run ad ms is w)"
proof (induction "is" arbitrary: w tr)
  case Nil
  then show ?case by simp
next
  case (Cons i "is")
  then have i: "i < length ms" and rest: "\<forall>i\<in>set is. i < length ms" by simp_all
  obtain e w' tr' where t: "down_step (traced ad) (traced_migrations ms) i (w, tr) = (e, (w', tr'))"
    by (metis prod.collapse)
  with traced_down_step_projects [OF i, of ad w tr] have p: "down_step ad ms i w = (e, w')"
    by (simp add: prod_eq_iff)
  show ?case using t p Cons.IH [OF rest, of w' tr'] by (cases e) simp_all
qed

lemma traced_UpToVersion_projects:
  "UpToVersion ad T ms w =
     (fst (UpToVersion (traced ad) T (traced_migrations ms) (w, tr)),
      fst (snd (UpToVersion (traced ad) T (traced_migrations ms) (w, tr))))"
proof -
  have r: "\<forall>i\<in>set [nat C..<nat (min T (int (length ms)))]. i < length ms" for C
    by auto
  show ?thesis
    using traced_up_run_projects [OF r]
    by (auto simp: UpToVersion_def up_loop_run traced_def prod_eq_iff
        split: prod.splits option.splits)
qed

lemma traced_DownToVersion_projects:
  "DownToVersion ad T ms w =
     (fst (DownToVersion (traced ad) T (traced_migrations ms) (w, tr)),
      fst (snd (DownToVersion (traced ad) T (traced_migrations ms) (w, tr))))"
proof -
  have r: "\<forall>i\<in>set (rev [nat T..<nat (min C (int (length ms)))]). i < length ms" for C
    by auto
  show ?thesis
    using traced_down_run_projects [OF r]
    by (auto simp: DownToVersion_def down_loop_run traced_def prod_eq_iff
        split: prod.splits option.splits)
qed

lemma exec_traced_loop_projects:
  "fst (exec_loop (exec_traced db) i qs (w, tr)) = fst (exec_loop db i qs w) \<and>
   fst (snd (exec_loop (exec_traced db) i qs (w, tr))) = snd (exec_loop db i qs w)"
  by (induction qs arbitrary: i w tr)
     (simp_all add: exec_traced_def split: prod.splits option.splits)

section \<open>Reading the version back\<close>

lemma query_after_preamble:
  assumes "store_contract ad" and "QuerySchemaVersion ad w1 = ((C, None), w2)"
  shows "fst (QuerySchemaVersion ad (Log ad format v w2)) = (C, None)"
proof -
  have "fst (QuerySchemaVersion ad (Log ad format v w2)) = fst (QuerySchemaVersion ad w2)"
    using assms(1) by (simp add: store_contract_def)
  also have "\<dots> = fst (QuerySchemaVersion ad (snd (QuerySchemaVersion ad w1)))"
    using assms(2) by simp
  also have "\<dots> = fst (QuerySchemaVersion ad w1)"
    using assms(1) by (simp add: store_contract_def)
  finally show ?thesis using assms(2) by simp
qed

lemma query_after_ups:
  assumes c: "store_contract ad" and ok: "ups_succeed ad ms [a..<b] w" and ab: "a < b"
  shows "fst (QuerySchemaVersion ad (fold (after_up ad ms) [a..<b] w)) = (int b, None)"
proof -
  obtain j where b: "b = Suc j" using ab by (cases b) auto
  with ab have split: "[a..<b] = [a..<j] @ [j]" by simp
  define wj where "wj = fold (after_up ad ms) [a..<j] w"
  from ok have "up_succeeds ad ms j wj"
    unfolding split ups_succeed_append wj_def by simp
  then have "InsertSchemaVersion ad (int j + 1) True (Comment (ms ! j))
      (snd (Up (ms ! j) (Log ad ''Upgrading database to version %d'' [int j + 1] wj))) =
      (None, after_up ad ms j wj)"
    by (simp add: up_succeeds_def after_up_def Let_def prod_eq_iff)
  with c have v: "fst (QuerySchemaVersion ad (after_up ad ms j wj)) = (int j + 1, None)"
    unfolding store_contract_def by blast
  have "fold (after_up ad ms) [a..<b] w = after_up ad ms j wj"
    unfolding split wj_def by simp
  then show ?thesis using v b by simp
qed

lemma query_after_downs:
  assumes c: "store_contract ad" and ok: "downs_succeed ad ms (rev [a..<b]) w" and ab: "a < b"
  shows "fst (QuerySchemaVersion ad (fold (after_down ad ms) (rev [a..<b]) w)) = (int a + 1, None)"
proof -
  from ab have split: "rev [a..<b] = rev [Suc a..<b] @ [a]" by (simp add: upt_conv_Cons)
  define wa where "wa = fold (after_down ad ms) (rev [Suc a..<b]) w"
  from ok have "down_succeeds ad ms a wa"
    unfolding split downs_succeed_append wa_def by simp
  then have "InsertSchemaVersion ad (int a + 1) False (Comment (ms ! a))
      (snd (Down (ms ! a) (Log ad ''Downgrading database to version %d'' [int a + 1] wa))) =
      (None, after_down ad ms a wa)"
    by (simp add: down_succeeds_def after_down_def Let_def prod_eq_iff)
  with c have v: "fst (QuerySchemaVersion ad (after_down ad ms a wa)) = (int a + 1, None)"
    unfolding store_contract_def by blast
  have "fold (after_down ad ms) (rev [a..<b]) w = after_down ad ms a wa"
    unfolding split wa_def by simp
  then show ?thesis using v by simp
qed

section \<open>The statements of a batch, the most recent rows of a table\<close>

lemma exec_loop_succeeds:
  "execs_succeed db qs w \<Longrightarrow>
   exec_loop (exec_traced db) i qs (w, tr) = (None, (after_execs db qs w, tr @ qs))"
proof (induction qs arbitrary: i w tr)
  case Nil
  then show ?case by (simp add: after_execs_def)
next
  case (Cons q qs)
  then show ?case
    by (cases "ExecContext db q [] w") (simp add: after_execs_def exec_traced_def)
qed

lemma exec_loop_fails:
  "k < length qs \<Longrightarrow> execs_succeed db (take k qs) w \<Longrightarrow>
   ExecContext db (qs ! k) [] (after_execs db (take k qs) w) = (Some cause, wF) \<Longrightarrow>
   exec_loop (exec_traced db) i qs (w, tr) =
     (Some (''error with query '' @ itoa (int (i + k)) @ '': '' @ cause),
      (wF, tr @ take (Suc k) qs))"
proof (induction qs arbitrary: i k w tr)
  case Nil
  then show ?case by simp
next
  case (Cons q qs)
  show ?case
  proof (cases k)
    case 0
    then show ?thesis using Cons.prems by (simp add: after_execs_def exec_traced_def)
  next
    case (Suc k')
    with Cons.prems have ok: "fst (ExecContext db q [] w) = None"
      and k': "k' < length qs"
      and rest: "execs_succeed db (take k' qs) (snd (ExecContext db q [] w))"
      and fail: "ExecContext db (qs ! k') []
          (after_execs db (take k' qs) (snd (ExecContext db q [] w))) = (Some cause, wF)"
      by (simp_all add: after_execs_def)
    from Cons.IH [OF k' rest fail, of "Suc i" "tr @ [q]"] ok Suc
    show ?thesis by (cases "ExecContext db q [] w") (simp add: exec_traced_def)
  qed
qed

lemma newest_nonempty: "rows \<noteq> [] \<Longrightarrow> newest rows \<noteq> []"
proof -
  assume ne: "rows \<noteq> []"
  define m where "m = Max (set (map row_created_at rows))"
  have "m \<in> set (map row_created_at rows)"
    unfolding m_def using ne by (intro Max_in) auto
  then obtain r where r: "r \<in> set rows" "row_created_at r = m" by auto
  have "\<forall>r'\<in>set rows. row_created_at r' \<le> m"
    unfolding m_def by (auto intro: Max_ge)
  with r have "r \<in> set (newest rows)"
    by (auto simp: newest_def list_all_iff)
  then show ?thesis by auto
qed

lemma newest_increasing:
  "sorted_wrt (<) (map row_created_at rows) \<Longrightarrow> rows \<noteq> [] \<Longrightarrow> newest rows = [last rows]"
proof (induction rows rule: rev_induct)
  case Nil
  then show ?case by simp
next
  case (snoc r rows)
  then have lt: "\<forall>r'\<in>set rows. row_created_at r' < row_created_at r"
    by (auto simp: sorted_wrt_append)
  then have "filter (\<lambda>x. list_all (\<lambda>r'. row_created_at r' \<le> row_created_at x) (rows @ [r])) rows = []"
    by (auto simp: filter_empty_conv list_all_iff)
  moreover have "list_all (\<lambda>r'. row_created_at r' \<le> row_created_at r) (rows @ [r])"
    using lt by (auto simp: list_all_iff intro: less_imp_le)
  ultimately show ?case by (simp add: newest_def)
qed

section \<open>Facts for evaluating the concrete inputs\<close>

lemma itoa_small: "itoa 0 = ''0''" "itoa 1 = ''1''" "itoa 2 = ''2''" "itoa 3 = ''3''"
  by (simp_all add: itoa_def digits.simps)

lemmas mem_simps = mem_adapter_def mem_db_def mem_exec_def ExecQueries_def create_table_def
  fresh_def three_def clash_def up_succeeds_def after_up_def up_events_def down_succeeds_def
  after_down_def down_events_def Let_def upt_conv_Cons itoa_small

lemma store_contract_mem: "store_contract mem_adapter"
  by (simp add: store_contract_def mem_adapter_def)

lemma sql_distinct [simp]:
  "create_table_sql t \<noteq> insert_version_sql t" "insert_version_sql t \<noteq> create_table_sql t"
  by (simp_all add: create_table_sql_def insert_version_sql_def nl_def tab_def)

lemmas table_simps = pg_adapter_def pg_def table_adapter_def table_db_def table_exec_def
  table_query_row_def TableAdapter_Log_def TableAdapter_PrepareSchemaVersions_def
  TableAdapter_QuerySchemaVersion_def TableAdapter_InsertSchemaVersion_def
  NewPostgreSQLAdapter_def empty_db_def first_migration_def newest_def

lemmas test_simps = test_adapter_def test_migrations_def mock_db_def MockConn_ExecContext_def
  MockConn_QueryContext_def Reset_def named_values_def enumerate_eq_zip table_adapter_def
  TableAdapter_Log_def TableAdapter_PrepareSchemaVersions_def TableAdapter_QuerySchemaVersion_def
  TableAdapter_InsertSchemaVersion_def expectedCreateSQL_def expectedInsertSQL_def insert_log_def
  create_table_sql_def insert_version_sql_def NewPostgreSQLAdapter_def upt_conv_Cons

section \<open>The package's tests\<close>

text \<open>
  The three tests of the package, run on the model with the mock driver: the
  model returns the errors and leaves the logs and arrays the tests expect.
\<close>

lemma TestExecQueries:
  "ExecQueries mock_db [''example query 1'', ''example query 2'']
     \<lparr>md = Reset, up = [], down = []\<rparr> =
   (None, \<lparr>md = Reset\<lparr>ExecLogs := [\<lparr>Query = ''example query 1'', Args = []\<rparr>,
                                    \<lparr>Query = ''example query 2'', Args = []\<rparr>]\<rparr>,
            up = [], down = []\<rparr>)"
  by (simp add: ExecQueries_def test_simps)

lemma TestExecQueriesError:
  "ExecQueries mock_db [''example query 1'', ''example query 2'']
     \<lparr>md = Reset\<lparr>ExecErr := Some ''mock error''\<rparr>, up = [], down = []\<rparr> =
   (Some ''error with query 0: mock error'',
    \<lparr>md = Reset\<lparr>ExecErr := Some ''mock error''\<rparr>, up = [], down = []\<rparr>)"
  by (simp add: ExecQueries_def test_simps itoa_small)

lemma TestDown_first_Up:
  "migrate_Up test_adapter test_migrations
     \<lparr>md = Reset, up = [False, False, False], down = [False, False, False]\<rparr> =
   (Some ''error upgrading database to version 2: mock error'',
    \<lparr>md = Reset\<lparr>ExecLogs := [\<lparr>Query = expectedCreateSQL, Args = []\<rparr>,
                             insert_log 1 True ''example comment 1''],
                 QueryLogs := [\<lparr>Query = select_version_sql, Args = []\<rparr>]\<rparr>,
     up = [True, True, False], down = [False, False, False]\<rparr>)"
  by (simp add: migrate_Up_def UpToVersion_def test_simps itoa_small)

lemma TestDown_second_Up:
  "migrate_Up test_adapter test_migrations
     \<lparr>md = Reset\<lparr>QueryRows := \<lparr>Version = 1\<rparr>\<rparr>,
      up = [True, True, False], down = [False, False, False]\<rparr> =
   (None,
    \<lparr>md = Reset\<lparr>ExecLogs := [\<lparr>Query = expectedCreateSQL, Args = []\<rparr>,
                             insert_log 2 True ''example comment 2'',
                             insert_log 3 True ''example comment 3''],
                 QueryLogs := [\<lparr>Query = select_version_sql, Args = []\<rparr>],
                 QueryRows := \<lparr>Version = 1\<rparr>\<rparr>,
     up = [True, True, True], down = [False, False, False]\<rparr>)"
  by (simp add: migrate_Up_def UpToVersion_def test_simps)

lemma TestDown_DownToVersion:
  "DownToVersion test_adapter 1 test_migrations
     \<lparr>md = Reset\<lparr>QueryRows := \<lparr>Version = 3\<rparr>\<rparr>,
      up = [False, False, False], down = [False, False, False]\<rparr> =
   (None,
    \<lparr>md = Reset\<lparr>ExecLogs := [\<lparr>Query = expectedCreateSQL, Args = []\<rparr>,
                             insert_log 3 False ''example comment 3'',
                             insert_log 2 False ''example comment 2''],
                 QueryLogs := [\<lparr>Query = select_version_sql, Args = []\<rparr>],
                 QueryRows := \<lparr>Version = 3\<rparr>\<rparr>,
     up = [False, False, False], down = [False, True, True]\<rparr>)"
  by (simp add: DownToVersion_def test_simps eval_nat_numeral)

section \<open>Upgrade from version 0\<close>

text \<open>
  C1: the store is ready and reports version 0, the target \<open>T\<close> is not
  negative, and every step the run reaches succeeds (the body and the record,
  each in the world it is run in).  Then \<open>UpToVersion\<close> returns no error; after
  the three opening calls it logs, runs \<open>Up\<close> and inserts the record of the
  migrations 1 to \<open>min T (len migrations)\<close>, in ascending order, and makes no
  other call; and on a store that keeps the contract the version read from the
  world it leaves is \<open>min T (len migrations)\<close>.
\<close>

theorem UpToVersion_from_zero:
  assumes prep: "PrepareSchemaVersions ad w = (None, w1)"
    and query: "QuerySchemaVersion ad w1 = ((0, None), w2)"
    and T: "0 \<le> T"
    and k: "k = nat (min T (int (length ms)))"
    and w3: "w3 = Log ad ''Current database version is %d'' [0] w2"
    and ok: "ups_succeed ad ms [0..<k] w3"
    and contract: "store_contract ad"
  shows "UpToVersion (traced ad) T (traced_migrations ms) (w, []) =
           (None, (fold (after_up ad ms) [0..<k] w3,
                   [Prepared, Queried, Logged ''Current database version is %d'' [0]]
                   @ up_events ms [0..<k])) \<and>
         fst (QuerySchemaVersion ad (fold (after_up ad ms) [0..<k] w3)) =
           (min T (int (length ms)), None)"
proof -
  have kl: "k \<le> length ms" using k by simp
  then have inrange: "\<forall>i\<in>set [0..<k]. i < length ms" by simp
  have run: "UpToVersion (traced ad) T (traced_migrations ms) (w, []) =
           (None, (fold (after_up ad ms) [0..<k] w3,
                   [Prepared, Queried, Logged ''Current database version is %d'' [0]]
                   @ up_events ms [0..<k]))"
    using traced_UpToVersion [OF prep query, of T ms "[]"]
      traced_up_run_succeeds [OF ok inrange] k w3 by simp
  have ver: "fst (QuerySchemaVersion ad (fold (after_up ad ms) [0..<k] w3)) =
           (min T (int (length ms)), None)"
  proof (cases "k = 0")
    case True
    then have "min T (int (length ms)) = 0" using k T by simp
    then show ?thesis using True query_after_preamble [OF contract query] w3 by simp
  next
    case False
    then have "int k = min T (int (length ms))" using k by simp
    then show ?thesis using False query_after_ups [OF contract ok] by simp
  qed
  from run ver show ?thesis by simp
qed

theorem UpToVersion_from_zero_witness:
  "ups_succeed mem_adapter three [0..<2] fresh \<and>
   UpToVersion (traced mem_adapter) 2 (traced_migrations three) (fresh, []) =
     (None, (\<lparr>records = [(1, True, ''create a''), (2, True, ''create b'')], tables = [''a'', ''b'']\<rparr>,
        [Prepared, Queried, Logged ''Current database version is %d'' [0],
         Logged ''Upgrading database to version %d'' [1], RanUp 1, Inserted 1 True ''create a'',
         Logged ''Upgrading database to version %d'' [2], RanUp 2, Inserted 2 True ''create b''])) \<and>
   fst (QuerySchemaVersion mem_adapter
     \<lparr>records = [(1, True, ''create a''), (2, True, ''create b'')], tables = [''a'', ''b'']\<rparr>) = (2, None)"
proof -
  have ok: "ups_succeed mem_adapter three [0..<2] fresh"
    by (simp add: mem_simps)
  have prep: "PrepareSchemaVersions mem_adapter fresh = (None, fresh)"
    and query: "QuerySchemaVersion mem_adapter fresh = ((0, None), fresh)"
    and w3: "fresh = Log mem_adapter ''Current database version is %d'' [0] fresh"
    by (simp_all add: mem_simps)
  have k: "(2::nat) = nat (min 2 (int (length three)))" by (simp add: three_def)
  from UpToVersion_from_zero [OF prep query _ k w3 ok store_contract_mem] ok
  show ?thesis by (simp add: mem_simps)
qed

section \<open>Downgrade below the current version\<close>

text \<open>
  C2: with the store at \<open>C\<close>, a target \<open>0 \<le> T < C\<close> within the list and every
  step succeeding, \<open>DownToVersion\<close> runs the \<open>Down\<close> bodies of the versions
  \<open>C, C - 1, ..., T + 1\<close> in that order.  Each step records the version it has
  just undone, so the last record carries \<open>T + 1\<close>, and that is the version a
  store that keeps the contract reads afterwards: not \<open>T\<close>.
\<close>

theorem DownToVersion_leaves_version_above_target:
  assumes prep: "PrepareSchemaVersions ad w = (None, w1)"
    and query: "QuerySchemaVersion ad w1 = ((C, None), w2)"
    and range: "0 \<le> T" "T < C" "C \<le> int (length ms)"
    and w3: "w3 = Log ad ''Current database version is %d'' [C] w2"
    and steps: "steps = rev [nat T..<nat C]"
    and ok: "downs_succeed ad ms steps w3"
    and contract: "store_contract ad"
  shows "DownToVersion (traced ad) T (traced_migrations ms) (w, []) =
           (None, (fold (after_down ad ms) steps w3,
                   [Prepared, Queried, Logged ''Current database version is %d'' [C]]
                   @ down_events ms steps)) \<and>
         fst (QuerySchemaVersion ad (fold (after_down ad ms) steps w3)) = (T + 1, None)"
proof -
  have m: "nat (min C (int (length ms))) = nat C" using range by simp
  have inrange: "\<forall>i\<in>set steps. i < length ms" using range steps by auto
  have run: "DownToVersion (traced ad) T (traced_migrations ms) (w, []) =
           (None, (fold (after_down ad ms) steps w3,
                   [Prepared, Queried, Logged ''Current database version is %d'' [C]]
                   @ down_events ms steps))"
    using traced_DownToVersion [OF prep query, of T ms "[]"]
      traced_down_run_succeeds [OF ok inrange] w3 steps m by simp
  have "nat T < nat C" using range by simp
  from query_after_downs [OF contract ok [unfolded steps] this] range
  have "fst (QuerySchemaVersion ad (fold (after_down ad ms) steps w3)) = (T + 1, None)"
    by (simp add: steps)
  with run show ?thesis by simp
qed

theorem DownToVersion_leaves_version_above_target_witness:
  "DownToVersion (traced mem_adapter) 1 (traced_migrations three)
     (\<lparr>records = [(1, True, ''create a''), (2, True, ''create b''), (3, True, ''create c'')],
       tables = [''a'', ''b'', ''c'']\<rparr>, []) =
     (None,
      (\<lparr>records = [(1, True, ''create a''), (2, True, ''create b''), (3, True, ''create c''),
                   (3, False, ''create c''), (2, False, ''create b'')],
        tables = [''a'']\<rparr>,
       [Prepared, Queried, Logged ''Current database version is %d'' [3],
        Logged ''Downgrading database to version %d'' [3], RanDown 3, Inserted 3 False ''create c'',
        Logged ''Downgrading database to version %d'' [2], RanDown 2, Inserted 2 False ''create b''])) \<and>
   fst (QuerySchemaVersion mem_adapter
     \<lparr>records = [(1, True, ''create a''), (2, True, ''create b''), (3, True, ''create c''),
                  (3, False, ''create c''), (2, False, ''create b'')],
       tables = [''a'']\<rparr>) = (2, None)"
proof -
  let ?w = "\<lparr>records = [(1, True, ''create a''), (2, True, ''create b''), (3, True, ''create c'')],
             tables = [''a'', ''b'', ''c'']\<rparr>"
  have prep: "PrepareSchemaVersions mem_adapter ?w = (None, ?w)"
    and query: "QuerySchemaVersion mem_adapter ?w = ((3, None), ?w)"
    and w3: "?w = Log mem_adapter ''Current database version is %d'' [3] ?w"
    by (simp_all add: mem_simps)
  have steps: "[2, 1] = rev [nat 1..<nat 3]" by (simp add: upt_conv_Cons)
  have ok: "downs_succeed mem_adapter three [2, 1] ?w"
    by (simp add: mem_simps)
  from DownToVersion_leaves_version_above_target
    [OF prep query _ _ _ w3 steps ok store_contract_mem]
  show ?thesis by (simp add: mem_simps)
qed

section \<open>A migration body fails during an upgrade\<close>

text \<open>
  C3: the store reports \<open>C\<close>, the migration at index \<open>j\<close> (version \<open>V = j + 1\<close>)
  lies in the range the run applies, the steps before it succeed, and its
  \<open>Up\<close> fails with \<open>cause\<close>.  Then \<open>UpToVersion\<close> returns the error
  \<open>error upgrading database to version V: cause\<close>; the last call of the run is
  that \<open>Up\<close>: no record is inserted for \<open>V\<close> and no later migration is logged
  or run.  When the failed body leaves the version store as it found it, the
  version read afterwards is \<open>V - 1\<close>.
\<close>

theorem UpToVersion_body_fails:
  assumes prep: "PrepareSchemaVersions ad w = (None, w1)"
    and query: "QuerySchemaVersion ad w1 = ((C, None), w2)"
    and range: "0 \<le> C" "C \<le> int j" "int j < T" "j < length ms"
    and w3: "w3 = Log ad ''Current database version is %d'' [C] w2"
    and ok: "ups_succeed ad ms [nat C..<j] w3"
    and wj: "wj = fold (after_up ad ms) [nat C..<j] w3"
    and fail: "Up (ms ! j) (Log ad ''Upgrading database to version %d'' [int j + 1] wj) =
                 (Some cause, wF)"
    and contract: "store_contract ad"
    and frame: "fst (QuerySchemaVersion ad wF) = fst (QuerySchemaVersion ad wj)"
  shows "UpToVersion (traced ad) T (traced_migrations ms) (w, []) =
           (Some (''error upgrading database to version '' @ itoa (int j + 1) @ '': '' @ cause),
            (wF, [Prepared, Queried, Logged ''Current database version is %d'' [C]]
                 @ up_events ms [nat C..<j]
                 @ [Logged ''Upgrading database to version %d'' [int j + 1], RanUp (Suc j)])) \<and>
         fst (QuerySchemaVersion ad wF) = (int j, None)"
proof -
  let ?b = "nat (min T (int (length ms)))"
  have jb: "j < ?b" and cj: "nat C \<le> j" using range by simp_all
  then have window: "[nat C..<?b] = [nat C..<j] @ j # [Suc j..<?b]"
    by (metis le_add_diff_inverse less_imp_le_nat upt_add_eq_append upt_conv_Cons)
  have inrange: "\<forall>i\<in>set [nat C..<j]. i < length ms" using range(4) by simp
  have run: "UpToVersion (traced ad) T (traced_migrations ms) (w, []) =
           (Some (''error upgrading database to version '' @ itoa (int j + 1) @ '': '' @ cause),
            (wF, [Prepared, Queried, Logged ''Current database version is %d'' [C]]
                 @ up_events ms [nat C..<j]
                 @ [Logged ''Upgrading database to version %d'' [int j + 1], RanUp (Suc j)]))"
    unfolding traced_UpToVersion [OF prep query] window up_run_append
    using traced_up_run_succeeds [OF ok inrange] traced_up_step_body_fails [OF fail range(4)]
    by (simp add: w3 wj)
  have ver: "fst (QuerySchemaVersion ad wj) = (int j, None)"
  proof (cases "nat C < j")
    case True
    then show ?thesis using query_after_ups [OF contract ok] wj by simp
  next
    case False
    then have "nat C = j" using cj by simp
    then have "wj = w3" "C = int j" using wj range(1) by auto
    then show ?thesis using query_after_preamble [OF contract query] w3 by simp
  qed
  from run ver frame show ?thesis by simp
qed

theorem UpToVersion_body_fails_witness:
  "UpToVersion (traced mem_adapter) 3 (traced_migrations clash) (fresh, []) =
     (Some ''error upgrading database to version 2: error with query 0: table exists'',
      (\<lparr>records = [(1, True, ''create a'')], tables = [''a'']\<rparr>,
       [Prepared, Queried, Logged ''Current database version is %d'' [0],
        Logged ''Upgrading database to version %d'' [1], RanUp 1, Inserted 1 True ''create a'',
        Logged ''Upgrading database to version %d'' [2], RanUp 2])) \<and>
   fst (QuerySchemaVersion mem_adapter \<lparr>records = [(1, True, ''create a'')], tables = [''a'']\<rparr>)
     = (1, None)"
proof -
  let ?w = "\<lparr>records = [(1, True, ''create a'')], tables = [''a'']\<rparr>"
  have prep: "PrepareSchemaVersions mem_adapter fresh = (None, fresh)"
    and query: "QuerySchemaVersion mem_adapter fresh = ((0, None), fresh)"
    and w3: "fresh = Log mem_adapter ''Current database version is %d'' [0] fresh"
    by (simp_all add: mem_simps)
  have ok: "ups_succeed mem_adapter clash [nat 0..<1] fresh"
    by (simp add: mem_simps)
  have wj: "?w = fold (after_up mem_adapter clash) [nat 0..<1] fresh"
    by (simp add: mem_simps)
  have fail: "Up (clash ! 1)
      (Log mem_adapter ''Upgrading database to version %d'' [int 1 + 1] ?w) =
      (Some ''error with query 0: table exists'', ?w)"
    by (simp add: mem_simps)
  from UpToVersion_body_fails [OF prep query _ _ _ _ w3 ok wj fail store_contract_mem refl, of 3]
  show ?thesis by (simp add: mem_simps)
qed

section \<open>Upgrading twice\<close>

text \<open>
  C4: after a run of \<open>UpToVersion\<close> to \<open>T\<close> that returned no error, a second run
  to \<open>T\<close> on the world the first one left, whose store is still ready and
  still reports the same version \<open>C\<close>, returns no error and makes three calls:
  prepare, query and the log of \<open>C\<close>.  No body runs, no record is inserted, and
  the version read afterwards is \<open>C\<close>.
\<close>

theorem UpToVersion_twice:
  assumes first: "UpToVersion ad T ms w = (None, w')"
    and contract: "store_contract ad"
    and prep2: "PrepareSchemaVersions ad w' = (None, w1')"
    and same: "fst (QuerySchemaVersion ad w1') = fst (QuerySchemaVersion ad w')"
    and C: "C = fst (fst (QuerySchemaVersion ad w'))"
    and w2': "w2' = snd (QuerySchemaVersion ad w1')"
  shows "UpToVersion (traced ad) T (traced_migrations ms) (w', []) =
           (None, (Log ad ''Current database version is %d'' [C] w2',
                   [Prepared, Queried, Logged ''Current database version is %d'' [C]])) \<and>
         fst (QuerySchemaVersion ad (Log ad ''Current database version is %d'' [C] w2')) =
           (C, None)"
proof -
  let ?b = "nat (min T (int (length ms)))"
  from first obtain w1 C0 w2 where prep: "PrepareSchemaVersions ad w = (None, w1)"
    and query: "QuerySchemaVersion ad w1 = ((C0, None), w2)"
    and loop: "up_run ad ms [nat C0..<?b] (Log ad ''Current database version is %d'' [C0] w2) =
                 (None, w')"
    by (auto simp: UpToVersion_def up_loop_run split: prod.splits option.splits)
  let ?w3 = "Log ad ''Current database version is %d'' [C0] w2"
  from up_run_None [OF loop] have ok: "ups_succeed ad ms [nat C0..<?b] ?w3"
    and w': "w' = fold (after_up ad ms) [nat C0..<?b] ?w3" by simp_all
  have after: "\<exists>C'. fst (QuerySchemaVersion ad w') = (C', None) \<and> ?b \<le> nat C'"
  proof (cases "nat C0 < ?b")
    case True
    then show ?thesis using query_after_ups [OF contract ok] w' by simp
  next
    case False
    then have le: "?b \<le> nat C0" by (simp only: not_less)
    then have "[nat C0..<?b] = []" by (simp only: upt_eq_Nil_conv) simp
    then have "w' = ?w3" using w' by (simp only: fold.simps id_apply)
    then show ?thesis using query_after_preamble [OF contract query] le by simp
  qed
  then have q': "fst (QuerySchemaVersion ad w') = (C, None)" and b: "?b \<le> nat C"
    using C by auto
  then have query2: "QuerySchemaVersion ad w1' = ((C, None), w2')"
    using same w2' by (simp add: prod_eq_iff)
  have run: "UpToVersion (traced ad) T (traced_migrations ms) (w', []) =
           (None, (Log ad ''Current database version is %d'' [C] w2',
                   [Prepared, Queried, Logged ''Current database version is %d'' [C]]))"
    using traced_UpToVersion [OF prep2 query2, of T ms "[]"] b by simp
  from run query_after_preamble [OF contract query2] show ?thesis by simp
qed

theorem UpToVersion_twice_witness:
  "UpToVersion mem_adapter 2 three fresh =
     (None, \<lparr>records = [(1, True, ''create a''), (2, True, ''create b'')], tables = [''a'', ''b'']\<rparr>) \<and>
   UpToVersion (traced mem_adapter) 2 (traced_migrations three)
     (\<lparr>records = [(1, True, ''create a''), (2, True, ''create b'')], tables = [''a'', ''b'']\<rparr>, []) =
     (None, (\<lparr>records = [(1, True, ''create a''), (2, True, ''create b'')], tables = [''a'', ''b'']\<rparr>,
             [Prepared, Queried, Logged ''Current database version is %d'' [2]])) \<and>
   fst (QuerySchemaVersion mem_adapter
     \<lparr>records = [(1, True, ''create a''), (2, True, ''create b'')], tables = [''a'', ''b'']\<rparr>) = (2, None)"
proof -
  let ?w = "\<lparr>records = [(1, True, ''create a''), (2, True, ''create b'')], tables = [''a'', ''b'']\<rparr>"
  have first: "UpToVersion mem_adapter 2 three fresh = (None, ?w)"
    by (simp add: UpToVersion_def mem_simps)
  have prep2: "PrepareSchemaVersions mem_adapter ?w = (None, ?w)"
    and same: "fst (QuerySchemaVersion mem_adapter ?w) = fst (QuerySchemaVersion mem_adapter ?w)"
    and C: "2 = fst (fst (QuerySchemaVersion mem_adapter ?w))"
    and w2: "?w = snd (QuerySchemaVersion mem_adapter ?w)"
    by (simp_all add: mem_simps)
  from UpToVersion_twice [OF first store_contract_mem prep2 same C w2] first
  show ?thesis by (simp add: mem_simps)
qed

section \<open>Upgrade to the latest version\<close>

text \<open>
  C5: \<open>Up\<close> is \<open>UpToVersion\<close> at the length of the migration list: the same
  returned error and the same world, for every adapter, list and world.
\<close>

theorem Up_is_UpToVersion_length:
  "migrate_Up ad migrations w = UpToVersion ad (int (length migrations)) migrations w"
  by (simp add: migrate_Up_def)

section \<open>Statements executed by the batch-statement helper\<close>

text \<open>
  C6: when every statement succeeds in the world the ones before it leave,
  the function \<open>ExecQueries\<close> returns executes all of them, in order, and
  returns no error.  When the statement at index \<open>k\<close> is the first to fail, with
  \<open>cause\<close>, the function executes the statements 0 to \<open>k\<close> in order and no
  other, and returns \<open>error with query k: cause\<close>; the world is the one the
  failed statement leaves.
\<close>

theorem ExecQueries_in_order:
  "(execs_succeed db queries w \<longrightarrow>
      ExecQueries (exec_traced db) queries (w, []) =
        (None, (after_execs db queries w, queries))) \<and>
   (k < length queries \<and> execs_succeed db (take k queries) w \<and>
    ExecContext db (queries ! k) [] (after_execs db (take k queries) w) = (Some cause, wF) \<longrightarrow>
      ExecQueries (exec_traced db) queries (w, []) =
        (Some (''error with query '' @ itoa (int k) @ '': '' @ cause),
         (wF, take (Suc k) queries)))"
  using exec_loop_succeeds [of db queries w 0 "[]"]
    exec_loop_fails [of k queries db w cause wF 0 "[]"]
  by (simp add: ExecQueries_def)

theorem ExecQueries_in_order_witness:
  "ExecQueries (exec_traced mem_db) [''CREATE TABLE a'', ''CREATE TABLE b''] (fresh, []) =
     (None, (\<lparr>records = [], tables = [''a'', ''b'']\<rparr>, [''CREATE TABLE a'', ''CREATE TABLE b''])) \<and>
   ExecQueries (exec_traced mem_db) [''CREATE TABLE a'', ''CREATE TABLE b'', ''CREATE TABLE c'']
     (\<lparr>records = [], tables = [''b'']\<rparr>, []) =
     (Some ''error with query 1: table exists'',
      (\<lparr>records = [], tables = [''b'', ''a'']\<rparr>, [''CREATE TABLE a'', ''CREATE TABLE b'']))"
proof -
  have ok: "execs_succeed mem_db [''CREATE TABLE a'', ''CREATE TABLE b''] fresh"
    by (simp add: mem_simps)
  have k: "(1::nat) < length [''CREATE TABLE a'', ''CREATE TABLE b'', ''CREATE TABLE c'']"
    by simp
  have pre: "execs_succeed mem_db
      (take 1 [''CREATE TABLE a'', ''CREATE TABLE b'', ''CREATE TABLE c''])
      \<lparr>records = [], tables = [''b'']\<rparr>"
    by (simp add: mem_simps)
  have fail: "ExecContext mem_db ([''CREATE TABLE a'', ''CREATE TABLE b'', ''CREATE TABLE c''] ! 1) []
      (after_execs mem_db (take 1 [''CREATE TABLE a'', ''CREATE TABLE b'', ''CREATE TABLE c''])
         \<lparr>records = [], tables = [''b'']\<rparr>) =
      (Some ''table exists'', \<lparr>records = [], tables = [''b'', ''a'']\<rparr>)"
    by (simp add: mem_simps after_execs_def)
  from ExecQueries_in_order [of mem_db "[''CREATE TABLE a'', ''CREATE TABLE b'']" fresh]
    ExecQueries_in_order [of mem_db "[''CREATE TABLE a'', ''CREATE TABLE b'', ''CREATE TABLE c'']"
      "\<lparr>records = [], tables = [''b'']\<rparr>" 1 "''table exists''"
      "\<lparr>records = [], tables = [''b'', ''a'']\<rparr>"]
    ok k pre fail
  show ?thesis by (simp add: after_execs_def mem_db_def mem_exec_def fresh_def itoa_small)
qed

section \<open>The version the table adapter reads\<close>

text \<open>
  C7: \<open>QuerySchemaVersion\<close> of the table adapter returns 0 and no error when the
  scan finds no row, 0 and the error when the query or the scan fails for
  another reason, and the scanned version otherwise.  On the schema_versions
  table: an empty table gives 0 and no error; a table with rows gives the
  version of a row no other row is more recent than; and when the rows were
  stamped at strictly increasing times, the version of the row inserted last.
\<close>

theorem QuerySchemaVersion_table:
  "(QueryRowContext db select_version_sql w = (ErrNoRows, w') \<longrightarrow>
      TableAdapter_QuerySchemaVersion db t w = ((0, None), w')) \<and>
   (QueryRowContext db select_version_sql w = (ScanErr err, w') \<longrightarrow>
      TableAdapter_QuerySchemaVersion db t w = ((0, Some err), w')) \<and>
   (QueryRowContext db select_version_sql w = (Scanned v, w') \<longrightarrow>
      TableAdapter_QuerySchemaVersion db t w = ((v, None), w')) \<and>
   (schema_versions d = Some [] \<longrightarrow>
      TableAdapter_QuerySchemaVersion (table_db pick t) t d = ((0, None), d)) \<and>
   (schema_versions d = Some rows \<and> rows \<noteq> [] \<and> (\<forall>rs. rs \<noteq> [] \<longrightarrow> pick rs \<in> set rs) \<longrightarrow>
      (\<exists>r\<in>set rows.
         TableAdapter_QuerySchemaVersion (table_db pick t) t d = ((row_version r, None), d) \<and>
         (\<forall>r'\<in>set rows. row_created_at r' \<le> row_created_at r))) \<and>
   (schema_versions d = Some rows \<and> rows \<noteq> [] \<and> (\<forall>rs. rs \<noteq> [] \<longrightarrow> pick rs \<in> set rs) \<and>
    sorted_wrt (<) (map row_created_at rows) \<longrightarrow>
      TableAdapter_QuerySchemaVersion (table_db pick t) t d =
        ((row_version (last rows), None), d))"
proof -
  have generic: "\<And>r. QueryRowContext db select_version_sql w = (r, w') \<Longrightarrow>
      TableAdapter_QuerySchemaVersion db t w =
        (case r of ErrNoRows \<Rightarrow> ((0, None), w') | ScanErr err \<Rightarrow> ((0, Some err), w')
         | Scanned v \<Rightarrow> ((v, None), w'))"
    by (simp add: TableAdapter_QuerySchemaVersion_def split: scan_result.splits)
  have empty: "schema_versions d = Some [] \<Longrightarrow>
      TableAdapter_QuerySchemaVersion (table_db pick t) t d = ((0, None), d)"
    by (simp add: TableAdapter_QuerySchemaVersion_def table_db_def table_query_row_def)
  have rows: "TableAdapter_QuerySchemaVersion (table_db pick t) t d =
        ((row_version (pick (newest rows)), None), d)"
    if "schema_versions d = Some rows" "rows \<noteq> []"
    using that by (simp add: TableAdapter_QuerySchemaVersion_def table_db_def table_query_row_def)
  have recent: "\<exists>r\<in>set rows.
         TableAdapter_QuerySchemaVersion (table_db pick t) t d = ((row_version r, None), d) \<and>
         (\<forall>r'\<in>set rows. row_created_at r' \<le> row_created_at r)"
    if s: "schema_versions d = Some rows" and ne: "rows \<noteq> []"
      and pick: "\<forall>rs. rs \<noteq> [] \<longrightarrow> pick rs \<in> set rs"
  proof -
    have "pick (newest rows) \<in> set (newest rows)"
      using pick newest_nonempty [OF ne] by blast
    then have "pick (newest rows) \<in> set rows"
      and "\<forall>r'\<in>set rows. row_created_at r' \<le> row_created_at (pick (newest rows))"
      by (auto simp: newest_def list_all_iff)
    then show ?thesis using rows [OF s ne] by blast
  qed
  have last: "TableAdapter_QuerySchemaVersion (table_db pick t) t d =
        ((row_version (last rows), None), d)"
    if s: "schema_versions d = Some rows" and ne: "rows \<noteq> []"
      and pick: "\<forall>rs. rs \<noteq> [] \<longrightarrow> pick rs \<in> set rs"
      and inc: "sorted_wrt (<) (map row_created_at rows)"
  proof -
    have "pick [last rows] \<in> set [last rows]" using pick by blast
    then have "pick (newest rows) = last rows"
      using newest_increasing [OF inc ne] by simp
    then show ?thesis using rows [OF s ne] by simp
  qed
  show ?thesis
    using generic [of ErrNoRows] generic [of "ScanErr err"] generic [of "Scanned v"]
      empty recent last by simp
qed

theorem QuerySchemaVersion_table_witness:
  "TableAdapter_QuerySchemaVersion (table_db hd pg) pg
     \<lparr>schema_versions = Some [\<lparr>row_version = 1, row_created_at = 4, row_upgrade = True,
                                 row_comment = ''first''\<rparr>,
                               \<lparr>row_version = 2, row_created_at = 7, row_upgrade = True,
                                 row_comment = ''second''\<rparr>], now = 8\<rparr> =
     ((2, None),
      \<lparr>schema_versions = Some [\<lparr>row_version = 1, row_created_at = 4, row_upgrade = True,
                                  row_comment = ''first''\<rparr>,
                                \<lparr>row_version = 2, row_created_at = 7, row_upgrade = True,
                                  row_comment = ''second''\<rparr>], now = 8\<rparr>) \<and>
   TableAdapter_QuerySchemaVersion (table_db hd pg) pg \<lparr>schema_versions = Some [], now = 0\<rparr> =
     ((0, None), \<lparr>schema_versions = Some [], now = 0\<rparr>) \<and>
   TableAdapter_QuerySchemaVersion (table_db hd pg) pg empty_db =
     ((0, Some ''no such table: schema_versions''), empty_db)"
proof -
  let ?rows = "[\<lparr>row_version = 1, row_created_at = 4, row_upgrade = True, row_comment = ''first''\<rparr>,
                \<lparr>row_version = 2, row_created_at = 7, row_upgrade = True, row_comment = ''second''\<rparr>]"
  have pick: "\<forall>rs::row list. rs \<noteq> [] \<longrightarrow> hd rs \<in> set rs" by simp
  have err: "QueryRowContext (table_db hd pg) select_version_sql empty_db =
      (ScanErr ''no such table: schema_versions'', empty_db)"
    by (simp add: table_db_def table_query_row_def empty_db_def)
  from QuerySchemaVersion_table
      [of "table_db hd pg" empty_db empty_db pg "''no such table: schema_versions''" 0
          "\<lparr>schema_versions = Some ?rows, now = 8\<rparr>" hd ?rows]
    QuerySchemaVersion_table
      [of "table_db hd pg" empty_db empty_db pg "''no such table: schema_versions''" 0
          "\<lparr>schema_versions = Some [], now = 0\<rparr>" hd "[]"]
    pick err
  show ?thesis by simp
qed

section \<open>Edge policy\<close>

text \<open>
  C8: with the store ready and reporting the version \<open>C\<close>, a target equal to \<open>C\<close>
  is a successful run of three calls (prepare, query, log) in both directions,
  for any migration list: no body runs and no record is inserted.  With the
  empty list, \<open>Up\<close> and \<open>DownToVersion\<close> to 0 are the same three calls, whatever
  \<open>C\<close> is; the only call that may write to the store is the one that prepares
  it.  On a store that keeps the contract the version read afterwards is still
  \<open>C\<close> (0 on a fresh database).
\<close>

theorem edge_policy:
  assumes "PrepareSchemaVersions ad w = (None, w1)"
    and "QuerySchemaVersion ad w1 = ((C, None), w2)"
    and "w3 = Log ad ''Current database version is %d'' [C] w2"
    and "calls = [Prepared, Queried, Logged ''Current database version is %d'' [C]]"
  shows "UpToVersion (traced ad) C (traced_migrations ms) (w, []) = (None, (w3, calls)) \<and>
         DownToVersion (traced ad) C (traced_migrations ms) (w, []) = (None, (w3, calls)) \<and>
         migrate_Up (traced ad) (traced_migrations []) (w, []) = (None, (w3, calls)) \<and>
         DownToVersion (traced ad) 0 (traced_migrations []) (w, []) = (None, (w3, calls)) \<and>
         (store_contract ad \<longrightarrow> fst (QuerySchemaVersion ad w3) = (C, None))"
proof -
  have up: "UpToVersion (traced ad) T (traced_migrations ms') (w, []) = (None, (w3, calls))"
    if "nat (min T (int (length ms'))) \<le> nat C" for T ms'
    using that traced_UpToVersion [OF assms(1,2), of T ms' "[]"] assms(3,4) by simp
  have down: "DownToVersion (traced ad) T (traced_migrations ms') (w, []) = (None, (w3, calls))"
    if "nat (min C (int (length ms'))) \<le> nat T" for T ms'
    using that traced_DownToVersion [OF assms(1,2), of T ms' "[]"] assms(3,4) by simp
  have 1: "UpToVersion (traced ad) C (traced_migrations ms) (w, []) = (None, (w3, calls))"
    by (rule up) simp
  have 2: "DownToVersion (traced ad) C (traced_migrations ms) (w, []) = (None, (w3, calls))"
    by (rule down) simp
  have 3: "migrate_Up (traced ad) (traced_migrations []) (w, []) = (None, (w3, calls))"
    unfolding migrate_Up_def using up [of 0 "[]"] by simp
  have 4: "DownToVersion (traced ad) 0 (traced_migrations []) (w, []) = (None, (w3, calls))"
    by (rule down) simp
  have 5: "store_contract ad \<longrightarrow> fst (QuerySchemaVersion ad w3) = (C, None)"
    using query_after_preamble [OF _ assms(2)] assms(3) by simp
  from 1 2 3 4 5 show ?thesis by simp
qed

theorem edge_policy_witness:
  "UpToVersion (traced mem_adapter) 1 (traced_migrations three)
     (\<lparr>records = [(1, True, ''create a'')], tables = [''a'']\<rparr>, []) =
     (None, (\<lparr>records = [(1, True, ''create a'')], tables = [''a'']\<rparr>,
             [Prepared, Queried, Logged ''Current database version is %d'' [1]])) \<and>
   DownToVersion (traced mem_adapter) 1 (traced_migrations three)
     (\<lparr>records = [(1, True, ''create a'')], tables = [''a'']\<rparr>, []) =
     (None, (\<lparr>records = [(1, True, ''create a'')], tables = [''a'']\<rparr>,
             [Prepared, Queried, Logged ''Current database version is %d'' [1]])) \<and>
   fst (QuerySchemaVersion mem_adapter \<lparr>records = [(1, True, ''create a'')], tables = [''a'']\<rparr>)
     = (1, None)"
proof -
  let ?w = "\<lparr>records = [(1, True, ''create a'')], tables = [''a'']\<rparr>"
  have prep: "PrepareSchemaVersions mem_adapter ?w = (None, ?w)"
    and query: "QuerySchemaVersion mem_adapter ?w = ((1, None), ?w)"
    and w3: "?w = Log mem_adapter ''Current database version is %d'' [1] ?w"
    by (simp_all add: mem_simps)
  from edge_policy [OF prep query w3 refl, of three] store_contract_mem
  show ?thesis by simp
qed

section \<open>Several records for one version\<close>

text \<open>
  C9: on the schema_versions table as the adapter declares it, with \<open>version\<close>
  its primary key.  \<open>Up\<close> with one migration on an empty database creates the
  table and records version 1.  \<open>DownToVersion\<close> to 0 then runs the \<open>Down\<close> of
  that migration and tries to record version 1 a second time, which the table
  refuses: the run returns the insert's error and the table still holds the one
  row.
\<close>

theorem second_record_of_a_version_rejected:
  "migrate_Up pg_adapter [first_migration] empty_db =
     (None, \<lparr>schema_versions = Some [\<lparr>row_version = 1, row_created_at = 0, row_upgrade = True,
                                        row_comment = ''first''\<rparr>], now = 1\<rparr>) \<and>
   DownToVersion (traced pg_adapter) 0 (traced_migrations [first_migration])
     (\<lparr>schema_versions = Some [\<lparr>row_version = 1, row_created_at = 0, row_upgrade = True,
                                 row_comment = ''first''\<rparr>], now = 1\<rparr>, []) =
     (Some ''error inserting schema_versions row for version 1: duplicate key in schema_versions.version'',
      (\<lparr>schema_versions = Some [\<lparr>row_version = 1, row_created_at = 0, row_upgrade = True,
                                  row_comment = ''first''\<rparr>], now = 1\<rparr>,
       [Prepared, Queried, Logged ''Current database version is %d'' [1],
        Logged ''Downgrading database to version %d'' [1], RanDown 1,
        Inserted 1 False ''first'']))"
proof -
  have up: "migrate_Up pg_adapter [first_migration] empty_db =
     (None, \<lparr>schema_versions = Some [\<lparr>row_version = 1, row_created_at = 0, row_upgrade = True,
                                        row_comment = ''first''\<rparr>], now = 1\<rparr>)"
    by (simp add: migrate_Up_def UpToVersion_def table_simps select_version_sql_def)
  have down: "DownToVersion (traced pg_adapter) 0 (traced_migrations [first_migration])
     (\<lparr>schema_versions = Some [\<lparr>row_version = 1, row_created_at = 0, row_upgrade = True,
                                 row_comment = ''first''\<rparr>], now = 1\<rparr>, []) =
     (Some ''error inserting schema_versions row for version 1: duplicate key in schema_versions.version'',
      (\<lparr>schema_versions = Some [\<lparr>row_version = 1, row_created_at = 0, row_upgrade = True,
                                  row_comment = ''first''\<rparr>], now = 1\<rparr>,
       [Prepared, Queried, Logged ''Current database version is %d'' [1],
        Logged ''Downgrading database to version %d'' [1], RanDown 1,
        Inserted 1 False ''first'']))"
    by (simp add: DownToVersion_def traced_def traced_migrations_def traced_migration_def
        table_simps itoa_small)
  from up down show ?thesis by simp
qed

text \<open>The table only grows: whatever the statement, the rows it held stay, in place.\<close>

lemma table_exec_appends:
  "schema_versions d = Some rows \<Longrightarrow>
   \<exists>more. schema_versions (snd (table_exec t query args d)) = Some (rows @ more)"
  by (auto simp: table_exec_def split: list.splits driver_Value.splits)

section \<open>Downgrade to a target at or above the current version\<close>

text \<open>
  C10: when the store is ready and reports the version \<open>C\<close>, and the target is
  \<open>C\<close> or more, \<open>DownToVersion\<close> returns no error and makes exactly three calls:
  prepare, query, and the log of the current version.  No \<open>Down\<close> runs and no
  record is inserted; the world is the one those three calls leave.
\<close>

theorem DownToVersion_target_not_below_current:
  assumes "PrepareSchemaVersions ad w = (None, w1)"
    and "QuerySchemaVersion ad w1 = ((C, None), w2)"
    and "C \<le> T"
  shows "DownToVersion (traced ad) T (traced_migrations ms) (w, []) =
           (None, (Log ad ''Current database version is %d'' [C] w2,
                   [Prepared, Queried, Logged ''Current database version is %d'' [C]]))"
proof -
  have "nat (min C (int (length ms))) \<le> nat T" using assms(3) by simp
  then show ?thesis using traced_DownToVersion [OF assms(1,2)] by simp
qed

theorem DownToVersion_target_not_below_current_witness:
  "DownToVersion (traced mem_adapter) 2 (traced_migrations [create_table ''a'', create_table ''b''])
     (\<lparr>records = [(1, True, ''create a'')], tables = [''a'']\<rparr>, []) =
   (None, (\<lparr>records = [(1, True, ''create a'')], tables = [''a'']\<rparr>,
           [Prepared, Queried, Logged ''Current database version is %d'' [1]]))"
  using DownToVersion_target_not_below_current
    [of mem_adapter "\<lparr>records = [(1, True, ''create a'')], tables = [''a'']\<rparr>"
        "\<lparr>records = [(1, True, ''create a'')], tables = [''a'']\<rparr>" 1
        "\<lparr>records = [(1, True, ''create a'')], tables = [''a'']\<rparr>" 2
        "[create_table ''a'', create_table ''b'']"]
  by (simp add: mem_adapter_def)

end
